theory Spec2Isabelle
  imports Complex_Main "HOL-Library.Char_ord" "HOL-Library.List_Lexorder"
begin

section \<open>Dose scheduling: the embedding\<close>

text \<open>
  The scheduling core is a pure batch transform over an order list. JavaScript numbers
  are doubles; the model writes them as mathematical integers, which is exact for every
  integer of magnitude below \<open>2 ^ 53\<close>. Values that the code can meet and that are not
  integers are made explicit: a raw input field is a \<open>number\<close> (an integer, or a value
  that \<^verbatim>\<open>Number.isInteger\<close> rejects), a time value is a \<open>jsnum\<close> (a finite count of
  milliseconds, \<^verbatim>\<open>NaN\<close> or \<^verbatim>\<open>Number.POSITIVE_INFINITY\<close>). What belongs to the runtime
  and not to the repository is a parameter of the model: the digest \<open>sha256Hex\<close>, and
  \<^verbatim>\<open>Date.parse\<close> outside the date-time format of the language (\<open>legacy\<close>).
\<close>

subsection \<open>Numbers\<close>

datatype number = Integer int | NonInteger

fun isInteger :: "number \<Rightarrow> bool" where
  "isInteger (Integer _) = True"
| "isInteger NonInteger = False"

text \<open>
  The numeric fields are read only after \<open>validateOrder\<close> has accepted the order, so
  the second equation is never reached by the pipeline.
\<close>

fun intOf :: "number \<Rightarrow> int" where
  "intOf (Integer i) = i"
| "intOf NonInteger = 0"

text \<open>\<^verbatim>\<open>Math.round\<close>: the nearest integer, halves towards plus infinity.\<close>

definition Math_round :: "rat \<Rightarrow> int" where
  "Math_round x = \<lfloor>x + 1 / 2\<rfloor>"

subsection \<open>Constants\<close>

definition MS_PER_MIN :: int where "MS_PER_MIN = 60000"
definition MS_PER_DAY :: int where "MS_PER_DAY = 86400000"
definition START_HOUR :: int where "START_HOUR = 8"
definition OVERLAP_WINDOW_MS :: int where "OVERLAP_WINDOW_MS = 60 * MS_PER_MIN"

subsection \<open>The daily template\<close>

text \<open>
  \<^verbatim>\<open>intervalMin = 1440 / freq\<close> and \<^verbatim>\<open>Math.round(i * intervalMin)\<close>. The division is a
  double division; for the frequencies 1..6 that validation admits the quotient is an
  integer, so the rational arithmetic below is what the doubles compute.
\<close>

definition intervalMin :: "int \<Rightarrow> rat" where
  "intervalMin freq = 1440 / of_int freq"

definition minutesFromCycleStart :: "int \<Rightarrow> int \<Rightarrow> int" where
  "minutesFromCycleStart freq i = Math_round (of_int i * intervalMin freq)"

text \<open>
  The interval that follows dose \<open>i\<close> of a cycle: up to the next dose of the cycle, and
  for the last dose up to the anchor of the next cycle, 1440 minutes after this one.
\<close>

definition intervalAfter :: "int \<Rightarrow> nat \<Rightarrow> int" where
  "intervalAfter freq i =
     (if int (Suc i) < freq then minutesFromCycleStart freq (int (Suc i)) else 1440)
       - minutesFromCycleStart freq (int i)"


subsection \<open>Time values\<close>

datatype jsnum = Num int | NaN | PosInf

text \<open>Arithmetic and comparison as the doubles have them: \<^verbatim>\<open>NaN\<close> absorbs, and compares false.\<close>

fun addN :: "jsnum \<Rightarrow> int \<Rightarrow> jsnum" where
  "addN (Num a) k = Num (a + k)"
| "addN NaN k = NaN"
| "addN PosInf k = PosInf"

fun gtN :: "jsnum \<Rightarrow> jsnum \<Rightarrow> bool" where
  "gtN (Num a) (Num b) = (a > b)"
| "gtN PosInf (Num b) = True"
| "gtN _ _ = False"

fun geN :: "jsnum \<Rightarrow> jsnum \<Rightarrow> bool" where
  "geN (Num a) (Num b) = (a \<ge> b)"
| "geN PosInf (Num b) = True"
| "geN PosInf PosInf = True"
| "geN _ _ = False"

fun leN :: "jsnum \<Rightarrow> jsnum \<Rightarrow> bool" where
  "leN (Num a) (Num b) = (a \<le> b)"
| "leN (Num a) PosInf = True"
| "leN PosInf PosInf = True"
| "leN _ _ = False"

fun Math_max :: "jsnum \<Rightarrow> jsnum \<Rightarrow> jsnum" where
  "Math_max NaN _ = NaN"
| "Math_max _ NaN = NaN"
| "Math_max PosInf _ = PosInf"
| "Math_max _ PosInf = PosInf"
| "Math_max (Num a) (Num b) = Num (max a b)"

fun Math_min :: "jsnum \<Rightarrow> jsnum \<Rightarrow> jsnum" where
  "Math_min NaN _ = NaN"
| "Math_min _ NaN = NaN"
| "Math_min PosInf b = b"
| "Math_min a PosInf = a"
| "Math_min (Num a) (Num b) = Num (min a b)"

subsection \<open>Strings\<close>

definition isDigit :: "char \<Rightarrow> bool" where
  "isDigit c = (48 \<le> (of_char c :: nat) \<and> (of_char c :: nat) \<le> 57)"

definition digitVal :: "char \<Rightarrow> nat" where
  "digitVal c = of_char c - 48"

definition digitChar :: "nat \<Rightarrow> char" where
  "digitChar n = ''0123456789'' ! n"

definition allDigits :: "string \<Rightarrow> bool" where
  "allDigits s = list_all isDigit s"

text \<open>\<^verbatim>\<open>Number(s)\<close> on a run of decimal digits (the empty run is 0).\<close>

definition readNat :: "string \<Rightarrow> nat" where
  "readNat s = foldl (\<lambda>a c. 10 * a + digitVal c) 0 s"

text \<open>\<^verbatim>\<open>n.toString()\<close> on an integer: decimal digits, a minus sign when negative.\<close>

function showNat :: "nat \<Rightarrow> string" where
  "showNat n = (if n < 10 then [digitChar n] else showNat (n div 10) @ [digitChar (n mod 10)])"
  by pat_completeness auto
termination
  by (relation "measure id") auto

declare showNat.simps [simp del]

definition showInt :: "int \<Rightarrow> string" where
  "showInt i = (if i < 0 then CHR ''-'' # showNat (nat (- i)) else showNat (nat i))"

definition padStart :: "nat \<Rightarrow> char \<Rightarrow> string \<Rightarrow> string" where
  "padStart n c s = replicate (n - length s) c @ s"

definition pad2 :: "int \<Rightarrow> string" where
  "pad2 n = padStart 2 CHR ''0'' (showInt n)"

text \<open>\<^verbatim>\<open>s.split(c)\<close>: the pieces between the separators, at least one piece.\<close>

fun split :: "char \<Rightarrow> string \<Rightarrow> string list" where
  "split c [] = [[]]"
| "split c (x # xs) =
     (if x = c then [] # split c xs
      else (case split c xs of [] \<Rightarrow> [[x]] | p # ps \<Rightarrow> (x # p) # ps))"

text \<open>Reading an array out of range gives \<^verbatim>\<open>undefined\<close>.\<close>

definition nthOpt :: "'a list \<Rightarrow> nat \<Rightarrow> 'a option" where
  "nthOpt xs i = (if i < length xs then Some (xs ! i) else None)"

definition sub :: "string \<Rightarrow> nat \<Rightarrow> nat \<Rightarrow> string" where
  "sub s i n = take n (drop i s)"

subsection \<open>The runtime's Date\<close>

text \<open>
  The calendar functions of the ECMAScript \<^verbatim>\<open>Date\<close> object, on integer time values:
  days and years are counted from 1970, months from 0. \<open>YearFromDay\<close> computes the
  year from an estimate and one correction; \<open>YearFromDay_spec\<close> below shows that it is
  the largest year that starts on or before the day.
\<close>

definition msPerDay :: int where "msPerDay = 86400000"

definition Day :: "int \<Rightarrow> int" where
  "Day t = t div msPerDay"

definition DaysInYear :: "int \<Rightarrow> int" where
  "DaysInYear y =
     (if y mod 4 \<noteq> 0 then 365 else if y mod 100 \<noteq> 0 then 366
      else if y mod 400 \<noteq> 0 then 365 else 366)"

definition DayFromYear :: "int \<Rightarrow> int" where
  "DayFromYear y =
     365 * (y - 1970) + (y - 1969) div 4 - (y - 1901) div 100 + (y - 1601) div 400"

definition YearFromDay :: "int \<Rightarrow> int" where
  "YearFromDay day =
     (let y = 1970 + (400 * day) div 146097
      in if DayFromYear (y + 1) \<le> day then y + 1
         else if DayFromYear y \<le> day then y else y - 1)"

definition YearFromTime :: "int \<Rightarrow> int" where
  "YearFromTime t = YearFromDay (Day t)"

definition InLeapYear :: "int \<Rightarrow> int" where
  "InLeapYear t = (if DaysInYear (YearFromTime t) = 366 then 1 else 0)"

definition DayWithinYear :: "int \<Rightarrow> int" where
  "DayWithinYear t = Day t - DayFromYear (YearFromTime t)"

text \<open>The day of the year on which month \<open>m\<close> (0..11) starts; 12 gives the year's length.\<close>

definition monthStart :: "int \<Rightarrow> int \<Rightarrow> int" where
  "monthStart leap m =
     (if m = 0 then 0 else if m = 1 then 31 else if m = 2 then 59 + leap
      else if m = 3 then 90 + leap else if m = 4 then 120 + leap
      else if m = 5 then 151 + leap else if m = 6 then 181 + leap
      else if m = 7 then 212 + leap else if m = 8 then 243 + leap
      else if m = 9 then 273 + leap else if m = 10 then 304 + leap
      else if m = 11 then 334 + leap else 365 + leap)"

definition monthOfDay :: "int \<Rightarrow> int \<Rightarrow> int" where
  "monthOfDay leap d =
     (if d < 31 then 0 else if d < 59 + leap then 1 else if d < 90 + leap then 2
      else if d < 120 + leap then 3 else if d < 151 + leap then 4
      else if d < 181 + leap then 5 else if d < 212 + leap then 6
      else if d < 243 + leap then 7 else if d < 273 + leap then 8
      else if d < 304 + leap then 9 else if d < 334 + leap then 10 else 11)"

definition MonthFromTime :: "int \<Rightarrow> int" where
  "MonthFromTime t = monthOfDay (InLeapYear t) (DayWithinYear t)"

definition DateFromTime :: "int \<Rightarrow> int" where
  "DateFromTime t = DayWithinYear t - monthStart (InLeapYear t) (MonthFromTime t) + 1"

definition HourFromTime :: "int \<Rightarrow> int" where
  "HourFromTime t = (t div 3600000) mod 24"

definition MinFromTime :: "int \<Rightarrow> int" where
  "MinFromTime t = (t div 60000) mod 60"

definition SecFromTime :: "int \<Rightarrow> int" where
  "SecFromTime t = (t div 1000) mod 60"

definition MakeTime :: "int \<Rightarrow> int \<Rightarrow> int \<Rightarrow> int \<Rightarrow> int" where
  "MakeTime hour minute sec ms = hour * 3600000 + minute * 60000 + sec * 1000 + ms"

text \<open>Months outside 0..11 carry into the year, days outside the month into the next.\<close>

definition MakeDay :: "int \<Rightarrow> int \<Rightarrow> int \<Rightarrow> int" where
  "MakeDay year month date =
     (let ym = year + month div 12; mn = month mod 12
      in DayFromYear ym + monthStart (if DaysInYear ym = 366 then 1 else 0) mn + date - 1)"

definition MakeDate :: "int \<Rightarrow> int \<Rightarrow> int" where
  "MakeDate day time = day * msPerDay + time"

definition TimeClip :: "int \<Rightarrow> jsnum" where
  "TimeClip t = (if \<bar>t\<bar> > 8640000000000000 then NaN else Num t)"

text \<open>\<^verbatim>\<open>Date.UTC(y, m, d, h, mi, s)\<close>; a year 0..99 means 1900..1999.\<close>

definition Date_UTC :: "int \<Rightarrow> int \<Rightarrow> int \<Rightarrow> int \<Rightarrow> int \<Rightarrow> int \<Rightarrow> jsnum" where
  "Date_UTC y m d h mi s =
     (let yr = (if 0 \<le> y \<and> y \<le> 99 then 1900 + y else y)
      in TimeClip (MakeDate (MakeDay yr m d) (MakeTime h mi s 0)))"

text \<open>
  \<^verbatim>\<open>Date.parse\<close> on the date-time forms of the ECMAScript date-time string format that
  carry a UTC offset: \<^verbatim>\<open>YYYY-MM-DDTHH:mm\<close>, optionally \<^verbatim>\<open>:ss\<close> and \<^verbatim>\<open>.sss\<close>, then
  \<^verbatim>\<open>Z\<close> or \<^verbatim>\<open>+HH:mm\<close> or \<^verbatim>\<open>-HH:mm\<close>. A string of this syntax with an element out of
  bounds is \<^verbatim>\<open>NaN\<close> (\<open>None\<close>). What the language leaves to the implementation is the
  parameter \<open>legacy\<close>: every string outside this syntax, and the elements on which
  engines differ (a day beyond the month's length, hour 24).
\<close>

definition tzPattern :: "string \<Rightarrow> bool" where
  "tzPattern t =
     (length t = 6 \<and> (t ! 0 = CHR ''+'' \<or> t ! 0 = CHR ''-'') \<and> isDigit (t ! 1) \<and>
      isDigit (t ! 2) \<and> t ! 3 = CHR '':'' \<and> isDigit (t ! 4) \<and> isDigit (t ! 5))"

text \<open>The pattern \<^verbatim>\<open>/^(\d{4})-(\d{2})-(\d{2})T(\d{2}):(\d{2})(?::(\d{2}))?$/\<close>.\<close>

definition naiveForm :: "string \<Rightarrow> bool" where
  "naiveForm s =
     (16 \<le> length s \<and> allDigits (sub s 0 4) \<and> s ! 4 = CHR ''-'' \<and> allDigits (sub s 5 2) \<and>
      s ! 7 = CHR ''-'' \<and> allDigits (sub s 8 2) \<and> s ! 10 = CHR ''T'' \<and>
      allDigits (sub s 11 2) \<and> s ! 13 = CHR '':'' \<and> allDigits (sub s 14 2) \<and>
      (length s = 16 \<or> (length s = 19 \<and> s ! 16 = CHR '':'' \<and> allDigits (sub s 17 2))))"

definition isoBody :: "string \<Rightarrow> bool" where
  "isoBody s =
     (naiveForm s \<or>
      (length s = 23 \<and> naiveForm (take 19 s) \<and> s ! 19 = CHR ''.'' \<and> allDigits (sub s 20 3)))"

definition field :: "string \<Rightarrow> nat \<Rightarrow> nat \<Rightarrow> int" where
  "field s i n = int (readNat (sub s i n))"

definition daysInMonth :: "int \<Rightarrow> int \<Rightarrow> int" where
  "daysInMonth y mo =
     (let leap = (if DaysInYear y = 366 then 1 else 0)
      in monthStart leap mo - monthStart leap (mo - 1))"

definition tzOf :: "string \<Rightarrow> (string \<times> int \<times> int \<times> int) option" where
  "tzOf s =
     (if s \<noteq> [] \<and> last s = CHR ''Z'' then Some (butlast s, 1, 0, 0)
      else if 6 \<le> length s \<and> tzPattern (drop (length s - 6) s) then
        (let t = drop (length s - 6) s
         in Some (take (length s - 6) s, if t ! 0 = CHR ''-'' then - 1 else 1,
                  field t 1 2, field t 4 2))
      else None)"

definition Date_parse :: "(string \<Rightarrow> int option) \<Rightarrow> string \<Rightarrow> int option" where
  "Date_parse legacy s =
     (case tzOf s of
        None \<Rightarrow> legacy s
      | Some (body, sg, th, tm) \<Rightarrow>
          if isoBody body then
            (let y = field body 0 4; mo = field body 5 2; d = field body 8 2;
                 h = field body 11 2; mi = field body 14 2;
                 sec = (if 19 \<le> length body then field body 17 2 else 0);
                 ms = (if length body = 23 then field body 20 3 else 0)
             in if mo < 1 \<or> 12 < mo \<or> d < 1 \<or> 31 < d \<or> 24 < h \<or> 59 < mi \<or> 59 < sec \<or>
                   24 < th \<or> 59 < tm then None
                else if daysInMonth y mo < d \<or> h = 24 \<or> th = 24 then legacy s
                else (case TimeClip (MakeDate (MakeDay y (mo - 1) d) (MakeTime h mi sec ms)
                                       - sg * (th * 60 + tm) * 60000) of
                        Num t \<Rightarrow> Some t
                      | _ \<Rightarrow> None))
          else legacy s)"

subsection \<open>Errors\<close>

text \<open>One constructor for each \<^verbatim>\<open>throw new Error(...)\<close> of the source, named by its message.\<close>

datatype error =
    DaysMustBe1to30
  | OrderIdRequired
  | PatientIdRequired
  | TzOffsetMustBeInt
  | FrequencyMustBe1to6
  | PriorityMustBe1to5
  | WindowMinutesMustBeNonNegativeInt
  | InvalidStartDate string
  | InvalidIso string
  | InvalidNaiveIso string

text \<open>The two kinds of failure that the specification distinguishes.\<close>

fun isValidationError :: "error \<Rightarrow> bool" where
  "isValidationError (InvalidStartDate _) = False"
| "isValidationError (InvalidIso _) = False"
| "isValidationError (InvalidNaiveIso _) = False"
| "isValidationError _ = True"

fun isMalformedTimestamp :: "error \<Rightarrow> bool" where
  "isMalformedTimestamp (InvalidStartDate _) = True"
| "isMalformedTimestamp (InvalidIso _) = True"
| "isMalformedTimestamp (InvalidNaiveIso _) = True"
| "isMalformedTimestamp _ = False"

subsection \<open>Time arithmetic\<close>

definition formatOffset :: "int \<Rightarrow> string" where
  "formatOffset minutes =
     (let sign = (if minutes \<ge> 0 then ''+'' else ''-'');
          absm = \<bar>minutes\<bar>;
          hh = absm div 60;
          mm = absm mod 60
      in sign @ pad2 hh @ '':'' @ pad2 mm)"

text \<open>
  \<^verbatim>\<open>Number(part)\<close> for a piece of the start date. A piece that is a run of decimal
  digits converts to its value (to \<^verbatim>\<open>Infinity\<close> from \<open>2 ^ 1024 - 2 ^ 970\<close> on, where the
  nearest double is infinite), a missing piece (\<^verbatim>\<open>undefined\<close>) to \<^verbatim>\<open>NaN\<close>. The other
  numeric syntaxes of \<^verbatim>\<open>Number\<close> (blanks, a plus sign, fractions, exponents, radix
  prefixes) are not dates of the form \<^verbatim>\<open>YYYY-MM-DD\<close>, the declared input; they are
  taken as \<^verbatim>\<open>NaN\<close>.
\<close>

definition NumberOf :: "string option \<Rightarrow> jsnum" where
  "NumberOf part =
     (case part of
        None \<Rightarrow> NaN
      | Some s \<Rightarrow>
          if allDigits s then
            (if 2 ^ 1024 - 2 ^ 970 \<le> readNat s then PosInf else Num (int (readNat s)))
          else NaN)"

definition parseYmd :: "string \<Rightarrow> error + (int \<times> int \<times> int)" where
  "parseYmd ymd =
     (let parts = split CHR ''-'' ymd;
          y = NumberOf (nthOpt parts 0);
          m = NumberOf (nthOpt parts 1);
          d = NumberOf (nthOpt parts 2)
      in case (y, m, d) of
           (Num yv, Num mv, Num dv) \<Rightarrow> Inr (yv, mv, dv)
         | _ \<Rightarrow> Inl (InvalidStartDate ymd))"

definition isIsoWithTz :: "string \<Rightarrow> bool" where
  "isIsoWithTz s =
     ((s \<noteq> [] \<and> last s = CHR ''Z'') \<or> (6 \<le> length s \<and> tzPattern (drop (length s - 6) s)))"

definition parseIsoInFixedOffset ::
  "(string \<Rightarrow> int option) \<Rightarrow> string \<Rightarrow> int \<Rightarrow> error + jsnum" where
  "parseIsoInFixedOffset legacy isoStr offsetMinutes =
     (if isIsoWithTz isoStr then
        (case Date_parse legacy isoStr of
           None \<Rightarrow> Inl (InvalidIso isoStr)
         | Some ms \<Rightarrow> Inr (Num ms))
      else if naiveForm isoStr then
        (let y = field isoStr 0 4; mo = field isoStr 5 2; d = field isoStr 8 2;
             hh = field isoStr 11 2; mm = field isoStr 14 2;
             ss = (if length isoStr = 19 then field isoStr 17 2 else 0)
         in Inr (addN (Date_UTC y (mo - 1) d hh mm ss) (- (offsetMinutes * MS_PER_MIN))))
      else Inl (InvalidNaiveIso isoStr))"

definition localMidnightUtcMs :: "string \<Rightarrow> int \<Rightarrow> error + jsnum" where
  "localMidnightUtcMs startYmd offsetMinutes =
     (case parseYmd startYmd of
        Inl e \<Rightarrow> Inl e
      | Inr (y, m, d) \<Rightarrow>
          Inr (addN (Date_UTC y (m - 1) d 0 0 0) (- (offsetMinutes * MS_PER_MIN))))"

text \<open>
  A \<^verbatim>\<open>Date\<close> made from a time value out of range is invalid: each of its getters returns
  \<^verbatim>\<open>NaN\<close>, which \<^verbatim>\<open>toString\<close> writes as the three letters.
\<close>

definition toIsoInFixedOffset :: "int \<Rightarrow> int \<Rightarrow> string" where
  "toIsoInFixedOffset utcMs offsetMinutes =
     (let localMs = utcMs + offsetMinutes * MS_PER_MIN
      in case TimeClip localMs of
           Num dt \<Rightarrow>
             (let y = YearFromTime dt;
                  mo = MonthFromTime dt + 1;
                  d = DateFromTime dt;
                  hh = HourFromTime dt;
                  mm = MinFromTime dt;
                  ss = SecFromTime dt
              in showInt y @ ''-'' @ pad2 mo @ ''-'' @ pad2 d @ ''T'' @ pad2 hh @ '':'' @
                 pad2 mm @ '':'' @ pad2 ss @ formatOffset offsetMinutes)
         | _ \<Rightarrow> ''NaN-NaN-NaNTNaN:NaN:NaN'' @ formatOffset offsetMinutes)"

subsection \<open>Data model\<close>

record Order =
  order_id :: string
  patient_id :: string
  tz_offset_minutes :: number
  start_datetime :: string
  end_datetime :: "string option"
  frequency_per_day :: number
  window_minutes :: number
  do_not_overlap_group :: "string option"
  priority :: number

record ScheduledDose =
  orderId :: string
  patientId :: string
  group :: "string option"
  priority :: int
  utcMs :: int
  tzOffset :: int
  windowMs :: int

record DoseEvent =
  event_id :: string
  order_id :: string
  scheduled_time :: string
  status :: string

subsection \<open>Order validator\<close>

definition validateOrder :: "Order \<Rightarrow> error + unit" where
  "validateOrder ord =
     (if Order.order_id ord = [] then Inl OrderIdRequired
      else if patient_id ord = [] then Inl PatientIdRequired
      else if \<not> isInteger (tz_offset_minutes ord) then Inl TzOffsetMustBeInt
      else if \<not> isInteger (frequency_per_day ord) \<or> intOf (frequency_per_day ord) < 1 \<or>
              intOf (frequency_per_day ord) > 6 then Inl FrequencyMustBe1to6
      else if \<not> isInteger (Order.priority ord) \<or> intOf (Order.priority ord) < 1 \<or>
              intOf (Order.priority ord) > 5 then Inl PriorityMustBe1to5
      else if \<not> isInteger (window_minutes ord) \<or> intOf (window_minutes ord) < 0
        then Inl WindowMinutesMustBeNonNegativeInt
      else Inr ())"

subsection \<open>Occurrence generator\<close>

text \<open>The object pushed for an instant \<open>tUtc\<close> of the order.\<close>

definition doseAt :: "Order \<Rightarrow> int \<Rightarrow> int \<Rightarrow> ScheduledDose" where
  "doseAt ord offset tUtc =
     \<lparr> orderId = Order.order_id ord,
       patientId = patient_id ord,
       group = do_not_overlap_group ord,
       priority = intOf (Order.priority ord),
       utcMs = tUtc,
       tzOffset = offset,
       windowMs = intOf (window_minutes ord) * MS_PER_MIN \<rparr>"

text \<open>The filter that keeps the first dose of each key \<^verbatim>\<open>orderId|utcMs\<close>.\<close>

definition seenKey :: "ScheduledDose \<Rightarrow> string" where
  "seenKey d = orderId d @ ''|'' @ showInt (utcMs d)"

fun dedupe :: "string set \<Rightarrow> ScheduledDose list \<Rightarrow> ScheduledDose list" where
  "dedupe seen [] = []"
| "dedupe seen (d # ds) =
     (if seenKey d \<in> seen then dedupe seen ds else d # dedupe (insert (seenKey d) seen) ds)"

text \<open>
  The body of the two nested loops for one cycle and one dose index. \<open>tUtc\<close> is finite or
  \<^verbatim>\<open>NaN\<close>, as the horizon start is; \<^verbatim>\<open>NaN\<close> fails both comparisons.
\<close>

definition candidateAt ::
  "Order \<Rightarrow> int \<Rightarrow> jsnum \<Rightarrow> jsnum \<Rightarrow> jsnum \<Rightarrow> int \<Rightarrow> int \<Rightarrow> int \<Rightarrow> ScheduledDose list" where
  "candidateAt ord offset firstCycleStart effectiveStart effectiveEnd freq cycleIdx i =
     (let cycleStartUtc = addN firstCycleStart (cycleIdx * MS_PER_DAY);
          tUtc = addN cycleStartUtc (minutesFromCycleStart freq i * MS_PER_MIN)
      in case tUtc of
           Num t \<Rightarrow> if geN tUtc effectiveStart \<and> leN tUtc effectiveEnd
                    then [doseAt ord offset t] else []
         | _ \<Rightarrow> [])"

definition generateScheduledTimes ::
  "(string \<Rightarrow> int option) \<Rightarrow> string \<Rightarrow> int \<Rightarrow> Order \<Rightarrow> error + ScheduledDose list" where
  "generateScheduledTimes legacy startDate days ord =
     (let offset = intOf (tz_offset_minutes ord)
      in case localMidnightUtcMs startDate offset of
           Inl e \<Rightarrow> Inl e
         | Inr globalStartUtc \<Rightarrow>
      (let globalEndUtc = addN globalStartUtc (days * MS_PER_DAY)
       in case parseIsoInFixedOffset legacy (start_datetime ord) offset of
            Inl e \<Rightarrow> Inl e
          | Inr orderStartUtc \<Rightarrow>
       (case (case end_datetime ord of
                None \<Rightarrow> Inr PosInf
              | Some e \<Rightarrow> parseIsoInFixedOffset legacy e offset) of
            Inl e \<Rightarrow> Inl e
          | Inr orderEndUtc \<Rightarrow>
        (let effectiveStart = Math_max globalStartUtc orderStartUtc;
             effectiveEnd = Math_min globalEndUtc orderEndUtc
         in if gtN effectiveStart effectiveEnd then Inr []
            else
              (let freq = intOf (frequency_per_day ord);
                   firstCycleStart = addN globalStartUtc (START_HOUR * 60 * MS_PER_MIN);
                   numCycles = days + 1;
                   out = concat (map (\<lambda>cycleIdx.
                           concat (map (candidateAt ord offset firstCycleStart effectiveStart
                                          effectiveEnd freq cycleIdx) [0..freq - 1]))
                         [0..numCycles - 1])
               in Inr (dedupe {} out))))))"

subsection \<open>Conflict resolver\<close>

text \<open>\<^verbatim>\<open>!d.group\<close> holds for \<^verbatim>\<open>null\<close> and for the empty string.\<close>

definition hasGroup :: "ScheduledDose \<Rightarrow> bool" where
  "hasGroup d = (case group d of None \<Rightarrow> False | Some g \<Rightarrow> g \<noteq> [])"

definition groupKey :: "ScheduledDose \<Rightarrow> string" where
  "groupKey d = patientId d @ ''::'' @ (case group d of None \<Rightarrow> ''null'' | Some g \<Rightarrow> g)"

text \<open>\<^verbatim>\<open>byKey\<close>: a \<^verbatim>\<open>Map\<close> iterates in the order in which its keys were first set.\<close>

fun pushByKey ::
  "string \<Rightarrow> ScheduledDose \<Rightarrow> (string \<times> ScheduledDose list) list \<Rightarrow>
   (string \<times> ScheduledDose list) list" where
  "pushByKey k d [] = [(k, [d])]"
| "pushByKey k d ((k', arr) # rest) =
     (if k' = k then (k', arr @ [d]) # rest else (k', arr) # pushByKey k d rest)"

fun partitionDoses ::
  "ScheduledDose list \<Rightarrow> (string \<times> ScheduledDose list) list \<Rightarrow> ScheduledDose list \<Rightarrow>
   (string \<times> ScheduledDose list) list \<times> ScheduledDose list" where
  "partitionDoses [] byKey passthrough = (byKey, passthrough)"
| "partitionDoses (d # ds) byKey passthrough =
     (if \<not> hasGroup d then partitionDoses ds byKey (passthrough @ [d])
      else partitionDoses ds (pushByKey (groupKey d) d byKey) passthrough)"

text \<open>
  \<^verbatim>\<open>localeCompare\<close> is the runtime's collation of strings. The specification calls the
  order of identifiers lexicographic; the model takes the lexicographic order of the
  characters.
\<close>

definition localeCompare :: "string \<Rightarrow> string \<Rightarrow> int" where
  "localeCompare a b = (if a < b then - 1 else if a = b then 0 else 1)"

text \<open>
  \<^verbatim>\<open>Array.prototype.sort\<close> with a comparator is stable; on a consistent comparator its
  result is the one of the stable insertion sort.
\<close>

fun insertBy :: "('a \<Rightarrow> 'a \<Rightarrow> int) \<Rightarrow> 'a \<Rightarrow> 'a list \<Rightarrow> 'a list" where
  "insertBy cmp x [] = [x]"
| "insertBy cmp x (y # ys) = (if cmp x y \<le> 0 then x # y # ys else y # insertBy cmp x ys)"

definition sortBy :: "('a \<Rightarrow> 'a \<Rightarrow> int) \<Rightarrow> 'a list \<Rightarrow> 'a list" where
  "sortBy cmp xs = foldr (insertBy cmp) xs []"

definition cmpGroup :: "ScheduledDose \<Rightarrow> ScheduledDose \<Rightarrow> int" where
  "cmpGroup a b =
     (if ScheduledDose.priority a \<noteq> ScheduledDose.priority b
        then ScheduledDose.priority b - ScheduledDose.priority a
      else if orderId a \<noteq> orderId b then localeCompare (orderId a) (orderId b)
      else utcMs a - utcMs b)"

text \<open>The scan of the minute buckets \<open>m..hi\<close> of \<^verbatim>\<open>keptByMinute\<close>, with its \<^verbatim>\<open>break\<close>.\<close>

function scanMinutes :: "(int \<rightharpoonup> ScheduledDose) \<Rightarrow> ScheduledDose \<Rightarrow> int \<Rightarrow> int \<Rightarrow> bool" where
  "scanMinutes keptByMinute d m hi =
     (if m \<le> hi then
        (case keptByMinute m of
           None \<Rightarrow> scanMinutes keptByMinute d (m + 1) hi
         | Some other \<Rightarrow>
             if \<bar>utcMs d - utcMs other\<bar> < OVERLAP_WINDOW_MS then True
             else scanMinutes keptByMinute d (m + 1) hi)
      else False)"
  by pat_completeness auto
termination
  by (relation "measure (\<lambda>(keptByMinute, d, m, hi). nat (hi + 1 - m))") auto

declare scanMinutes.simps [simp del]

definition hasConflict :: "(int \<rightharpoonup> ScheduledDose) \<Rightarrow> ScheduledDose \<Rightarrow> bool" where
  "hasConflict keptByMinute d =
     (let minute = utcMs d div MS_PER_MIN in scanMinutes keptByMinute d (minute - 60) (minute + 60))"

text \<open>The greedy pass over one sorted group; \<open>kept\<close> collects the accepted doses.\<close>

fun acceptGroup ::
  "ScheduledDose list \<Rightarrow> (int \<rightharpoonup> ScheduledDose) \<Rightarrow> ScheduledDose list \<Rightarrow> ScheduledDose list" where
  "acceptGroup [] keptByMinute kept = kept"
| "acceptGroup (d # ds) keptByMinute kept =
     (if \<not> hasConflict keptByMinute d
        then acceptGroup ds (keptByMinute(utcMs d div MS_PER_MIN \<mapsto> d)) (kept @ [d])
      else acceptGroup ds keptByMinute kept)"

fun resolveGroups ::
  "(string \<times> ScheduledDose list) list \<Rightarrow> ScheduledDose list \<Rightarrow> ScheduledDose list" where
  "resolveGroups [] kept = kept"
| "resolveGroups ((k, groupDoses) # rest) kept =
     resolveGroups rest (acceptGroup (sortBy cmpGroup groupDoses) Map.empty kept)"

definition resolveOverlaps :: "ScheduledDose list \<Rightarrow> ScheduledDose list" where
  "resolveOverlaps doses =
     (case partitionDoses doses [] [] of
        (byKey, passthrough) \<Rightarrow> resolveGroups byKey passthrough)"

subsection \<open>Event assembler\<close>

definition cmpFinal :: "ScheduledDose \<Rightarrow> ScheduledDose \<Rightarrow> int" where
  "cmpFinal a b =
     (if utcMs a \<noteq> utcMs b then utcMs a - utcMs b
      else localeCompare (orderId a) (orderId b))"

text \<open>
  The identifier is the SHA-256 digest, in hexadecimal, of \<^verbatim>\<open>orderId|scheduled\<close>. The
  digest is a function of the runtime's library, the parameter \<open>sha256Hex\<close>.
\<close>

definition toEvent :: "(string \<Rightarrow> string) \<Rightarrow> ScheduledDose \<Rightarrow> DoseEvent" where
  "toEvent sha256Hex d =
     (let scheduled = toIsoInFixedOffset (utcMs d) (tzOffset d);
          ident = sha256Hex (orderId d @ ''|'' @ scheduled)
      in \<lparr> event_id = ident,
           order_id = orderId d,
           scheduled_time = scheduled,
           status = ''SCHEDULED'' \<rparr>)"

fun validateAll :: "Order list \<Rightarrow> error + unit" where
  "validateAll [] = Inr ()"
| "validateAll (ord # ords) =
     (case validateOrder ord of Inl e \<Rightarrow> Inl e | Inr u \<Rightarrow> validateAll ords)"

fun generateAll ::
  "(string \<Rightarrow> int option) \<Rightarrow> string \<Rightarrow> int \<Rightarrow> Order list \<Rightarrow> ScheduledDose list \<Rightarrow>
   error + ScheduledDose list" where
  "generateAll legacy startDate days [] allDoses = Inr allDoses"
| "generateAll legacy startDate days (ord # ords) allDoses =
     (case generateScheduledTimes legacy startDate days ord of
        Inl e \<Rightarrow> Inl e
      | Inr ds \<Rightarrow> generateAll legacy startDate days ords (allDoses @ ds))"

definition generateDoseEvents ::
  "(string \<Rightarrow> string) \<Rightarrow> (string \<Rightarrow> int option) \<Rightarrow> string \<Rightarrow> number \<Rightarrow> Order list \<Rightarrow>
   error + DoseEvent list" where
  "generateDoseEvents sha256Hex legacy start_date days orders =
     (if \<not> isInteger days \<or> intOf days < 1 \<or> intOf days > 30 then Inl DaysMustBe1to30
      else case validateAll orders of
             Inl e \<Rightarrow> Inl e
           | Inr u \<Rightarrow>
        (case generateAll legacy start_date (intOf days) orders [] of
           Inl e \<Rightarrow> Inl e
         | Inr allDoses \<Rightarrow>
             (let winners = sortBy cmpFinal (resolveOverlaps allDoses)
              in Inr (map (toEvent sha256Hex) winners))))"

subsection \<open>Sample inputs\<close>

text \<open>
  A runtime whose \<^verbatim>\<open>Date.parse\<close> recognises nothing beyond the date-time format, and a
  stand-in for the digest; both only instantiate the parameters in the examples.
\<close>

definition noLegacy :: "string \<Rightarrow> int option" where
  "noLegacy s = None"

definition sampleDigest :: "string \<Rightarrow> string" where
  "sampleDigest s = ''#'' @ s"

text \<open>The order of the horizon-boundary example of the specification.\<close>

definition sampleOrder :: Order where
  "sampleOrder =
     \<lparr> Order.order_id = ''A'', patient_id = ''p'', tz_offset_minutes = Integer 0,
       start_datetime = ''2026-01-15T00:00'', end_datetime = None,
       frequency_per_day = Integer 1, window_minutes = Integer 0,
       do_not_overlap_group = None, Order.priority = Integer 1 \<rparr>"

text \<open>The date-only form \<^verbatim>\<open>YYYY-MM-DD\<close> that the specification names.\<close>

definition dateOnlyForm :: "string \<Rightarrow> bool" where
  "dateOnlyForm s =
     (length s = 10 \<and> allDigits (sub s 0 4) \<and> s ! 4 = CHR ''-'' \<and> allDigits (sub s 5 2) \<and>
      s ! 7 = CHR ''-'' \<and> allDigits (sub s 8 2))"

subsection \<open>The greedy pass, by the list of accepted doses\<close>

text \<open>
  Two doses are near when their instants lie strictly within the overlap window. The
  greedy pass described with the list of accepted doses alone, without the index by
  minute; \<open>acceptGroup_greedy\<close> below shows that the scan of the minute buckets decides
  the same.
\<close>

definition near :: "ScheduledDose \<Rightarrow> ScheduledDose \<Rightarrow> bool" where
  "near a b = (\<bar>utcMs a - utcMs b\<bar> < OVERLAP_WINDOW_MS)"






subsection \<open>Fixed-width decimal fields\<close>

text \<open>The two and four digits of a number below 100 and below 10000.\<close>

definition twoDigits :: "nat \<Rightarrow> string" where
  "twoDigits n = [digitChar (n div 10), digitChar (n mod 10)]"

definition fourDigits :: "nat \<Rightarrow> string" where
  "fourDigits n =
     [digitChar (n div 1000), digitChar (n div 100 mod 10), digitChar (n div 10 mod 10),
      digitChar (n mod 10)]"

section \<open>Properties\<close>

subsection \<open>The daily template is evenly spaced\<close>

lemma minutesFromCycleStart_exact:
  assumes "freq dvd 1440" "freq \<noteq> 0"
  shows "minutesFromCycleStart freq i = i * (1440 div freq)"
proof -
  from assms obtain k where k: "1440 = freq * k" by (auto elim: dvdE)
  have kd: "1440 div freq = k"
    using assms(2) by (simp add: k)
  have e: "(1440::rat) = of_int freq * of_int k"
    using k by (metis of_int_mult of_int_numeral)
  have nz: "(of_int freq :: rat) \<noteq> 0"
    using assms(2) by simp
  have "intervalMin freq = of_int freq * of_int k / of_int freq"
    unfolding intervalMin_def by (simp only: e)
  also have "\<dots> = of_int k"
    using nz by simp
  finally have im: "intervalMin freq = of_int k" .
  have "\<lfloor>(of_int (i * k) + 1 / 2 :: rat)\<rfloor> = i * k"
    by (rule floor_unique) simp_all
  then have "Math_round (of_int i * of_int k) = i * k"
    unfolding Math_round_def by (simp only: of_int_mult)
  then show ?thesis
    unfolding minutesFromCycleStart_def im kd .
qed

lemma freq_dvd_1440: "1 \<le> (n::int) \<Longrightarrow> n \<le> 6 \<Longrightarrow> n dvd 1440"
proof -
  assume "1 \<le> n" "n \<le> 6"
  then have "n \<in> {1, 2, 3, 4, 5, 6}" by auto
  then show ?thesis by auto
qed

lemma sum_intervalAfter:
  assumes "freq dvd 1440" "0 < freq"
  shows "(\<Sum>i<nat freq. intervalAfter freq i) = 1440"
proof -
  define k where "k = 1440 div freq"
  have fk: "freq * k = 1440" using assms by (simp add: k_def)
  have step: "intervalAfter freq i = k" if "i < nat freq" for i
  proof (cases "int (Suc i) < freq")
    case True
    then show ?thesis
      using assms minutesFromCycleStart_exact [of freq]
      by (simp add: intervalAfter_def k_def algebra_simps)
  next
    case False
    with that have fi: "freq = int i + 1" by linarith
    have "minutesFromCycleStart freq (int i) = int i * k"
      using assms minutesFromCycleStart_exact [of freq "int i"] by (simp add: k_def)
    moreover have "(int i + 1) * k = 1440" using fk fi by simp
    ultimately show ?thesis
      using False by (simp add: intervalAfter_def algebra_simps)
  qed
  have "(\<Sum>i<nat freq. intervalAfter freq i) = (\<Sum>i<nat freq. k)"
    by (rule sum.cong) (auto simp: step)
  also have "\<dots> = freq * k" using assms by simp
  finally show ?thesis using fk by simp
qed

text \<open>
  C9. For every frequency \<open>n\<close> in 1..6 the intervals between consecutive doses of a day,
  the last one closed by the next cycle's anchor at offset 1440, sum to exactly 1440
  minutes.
\<close>

theorem C9_daily_intervals_sum:
  assumes "1 \<le> n" "n \<le> 6"
  shows "(\<Sum>i<nat n. intervalAfter n i) = 1440"
  using sum_intervalAfter [of n] freq_dvd_1440 [OF assms] assms by simp

theorem C9_daily_intervals_sum_witness:
  "(1::int) \<le> 5 \<and> (5::int) \<le> 6 \<and> (\<Sum>i<nat 5. intervalAfter 5 i) = 1440"
  using C9_daily_intervals_sum [of 5] by simp


subsection \<open>The pipeline on the sample order\<close>

lemma scanMinutes_empty: "scanMinutes Map.empty d m hi = False"
proof (induction "nat (hi + 1 - m)" arbitrary: m)
  case 0
  then show ?case by (simp add: scanMinutes.simps)
next
  case (Suc n)
  then have "n = nat (hi + 1 - (m + 1))" by linarith
  then have "scanMinutes Map.empty d (m + 1) hi = False" by (rule Suc.hyps(1))
  then show ?case by (subst scanMinutes.simps) simp
qed

lemma hasConflict_empty: "\<not> hasConflict Map.empty d"
  by (simp add: hasConflict_def scanMinutes_empty)

lemma resolveOverlaps_single: "resolveOverlaps [d] = [d]"
  by (simp add: resolveOverlaps_def sortBy_def hasConflict_empty)

lemma sortBy_single: "sortBy cmp [d] = [d]"
  by (simp add: sortBy_def)

lemmas date_defs =
  Date_UTC_def TimeClip_def MakeDate_def MakeDay_def MakeTime_def DayFromYear_def
  monthStart_def DaysInYear_def msPerDay_def MS_PER_MIN_def

lemmas read_defs =
  allDigits_def isDigit_def readNat_def digitVal_def field_def sub_def

lemmas render_defs =
  toIsoInFixedOffset_def YearFromTime_def YearFromDay_def Day_def MonthFromTime_def
  monthOfDay_def InLeapYear_def DayWithinYear_def DateFromTime_def HourFromTime_def
  MinFromTime_def SecFromTime_def pad2_def padStart_def showInt_def showNat.simps
  digitChar_def formatOffset_def

lemma localMidnight_sample: "localMidnightUtcMs ''2026-01-15'' 0 = Inr (Num 1768435200000)"
  by (simp add: localMidnightUtcMs_def parseYmd_def NumberOf_def nthOpt_def read_defs date_defs)

lemma isIsoWithTz_sample: "\<not> isIsoWithTz ''2026-01-15T00:00''"
  by (simp add: isIsoWithTz_def tzPattern_def)

lemma naiveForm_sample: "naiveForm ''2026-01-15T00:00''"
  by (simp add: naiveForm_def read_defs)

lemma parseIso_sample:
  "parseIsoInFixedOffset L ''2026-01-15T00:00'' 0 = Inr (Num 1768435200000)"
  by (simp add: parseIsoInFixedOffset_def isIsoWithTz_sample naiveForm_sample read_defs date_defs)

lemma minutes_1_0: "minutesFromCycleStart 1 0 = 0"
  using minutesFromCycleStart_exact [of 1 0] by simp

lemma toIso_sample: "toIsoInFixedOffset 1768464000000 0 = ''2026-01-15T08:00:00+00:00''"
  by (simp add: render_defs date_defs)

lemma generate_sample:
  assumes "tz_offset_minutes ord = Integer 0" "start_datetime ord = ''2026-01-15T00:00''"
    "end_datetime ord = None" "frequency_per_day ord = Integer 1"
  shows "generateScheduledTimes L ''2026-01-15'' 1 ord = Inr [doseAt ord 0 1768464000000]"
  using assms
  by (simp add: generateScheduledTimes_def localMidnight_sample parseIso_sample candidateAt_def
      minutes_1_0 MS_PER_DAY_def MS_PER_MIN_def START_HOUR_def upto.simps)

lemma validate_sample:
  assumes "Order.order_id ord \<noteq> []" "patient_id ord \<noteq> []"
    "tz_offset_minutes ord = Integer 0" "frequency_per_day ord = Integer 1"
    "window_minutes ord = Integer 0" "Order.priority ord = Integer p" "1 \<le> p" "p \<le> 5"
  shows "validateOrder ord = Inr ()"
  using assms by (simp add: validateOrder_def)

lemma run_sample:
  assumes "Order.order_id ord \<noteq> []" "patient_id ord \<noteq> []"
    "tz_offset_minutes ord = Integer 0" "start_datetime ord = ''2026-01-15T00:00''"
    "end_datetime ord = None" "frequency_per_day ord = Integer 1"
    "window_minutes ord = Integer 0" "Order.priority ord = Integer p" "1 \<le> p" "p \<le> 5"
  shows "generateDoseEvents H L ''2026-01-15'' (Integer 1) [ord] =
           Inr [\<lparr> event_id = H (Order.order_id ord @ ''|2026-01-15T08:00:00+00:00''),
                  order_id = Order.order_id ord,
                  scheduled_time = ''2026-01-15T08:00:00+00:00'',
                  status = ''SCHEDULED'' \<rparr>]"
proof -
  have v: "validateOrder ord = Inr ()"
    using assms by (intro validate_sample)
  have g: "generateScheduledTimes L ''2026-01-15'' 1 ord = Inr [doseAt ord 0 1768464000000]"
    using assms by (intro generate_sample)
  show ?thesis
    by (simp add: generateDoseEvents_def v g resolveOverlaps_single sortBy_single toEvent_def
        doseAt_def toIso_sample Let_def)
qed


subsection \<open>The horizon-boundary example\<close>

text \<open>
  C8. With \<open>days = 1\<close>, start date 2026-01-15 and a single valid order of frequency 1,
  offset 0, start 2026-01-15T00:00, no end and window 0, the call returns exactly one
  event, scheduled at 2026-01-15T08:00:00+00:00.
\<close>

theorem C8_horizon_boundary:
  assumes "Order.order_id ord \<noteq> []" "patient_id ord \<noteq> []"
    "tz_offset_minutes ord = Integer 0" "start_datetime ord = ''2026-01-15T00:00''"
    "end_datetime ord = None" "frequency_per_day ord = Integer 1"
    "window_minutes ord = Integer 0" "Order.priority ord = Integer p" "1 \<le> p" "p \<le> 5"
  shows "\<exists>e. generateDoseEvents H L ''2026-01-15'' (Integer 1) [ord] = Inr [e] \<and>
             scheduled_time e = ''2026-01-15T08:00:00+00:00''"
  using run_sample [OF assms, of H L] by simp

theorem C8_horizon_boundary_witness:
  "Order.order_id sampleOrder \<noteq> [] \<and> frequency_per_day sampleOrder = Integer 1 \<and>
   (\<exists>e. generateDoseEvents sampleDigest noLegacy ''2026-01-15'' (Integer 1) [sampleOrder] = Inr [e] \<and>
        scheduled_time e = ''2026-01-15T08:00:00+00:00'')"
  using C8_horizon_boundary [of sampleOrder 1 sampleDigest noLegacy]
  by (simp add: sampleOrder_def)

subsection \<open>Fail-fast validation\<close>

lemma validateOrder_error_kind: "validateOrder ord = Inl e \<Longrightarrow> isValidationError e"
  by (auto simp: validateOrder_def split: if_splits)

lemma validateAll_first_violation:
  assumes "\<forall>p\<in>set pre. validateOrder p = Inr ()" "validateOrder ord = Inl e"
  shows "validateAll (pre @ ord # post) = Inl e"
  using assms by (induction pre) simp_all

text \<open>
  C5. When \<open>days\<close> is not an integer in 1..30 the call fails with the validation error
  for \<open>days\<close>, whatever the orders are. When \<open>days\<close> is valid and some order violates a
  field check, the call fails with the violation of the first such order of the list.
  A failure is the whole result: no event list comes with it.
\<close>

theorem C5_fail_fast:
  "(\<not> (isInteger days \<and> 1 \<le> intOf days \<and> intOf days \<le> 30) \<longrightarrow>
      generateDoseEvents H L sd days orders = Inl DaysMustBe1to30 \<and>
      isValidationError DaysMustBe1to30) \<and>
   (isInteger days \<and> 1 \<le> intOf days \<and> intOf days \<le> 30 \<and>
    (\<forall>p\<in>set pre. validateOrder p = Inr ()) \<and> validateOrder ord = Inl e \<longrightarrow>
      generateDoseEvents H L sd days (pre @ ord # post) = Inl e \<and> isValidationError e)"
proof (intro conjI impI)
  assume "\<not> (isInteger days \<and> 1 \<le> intOf days \<and> intOf days \<le> 30)"
  then show "generateDoseEvents H L sd days orders = Inl DaysMustBe1to30"
    by (auto simp: generateDoseEvents_def)
next
  show "isValidationError DaysMustBe1to30" by simp
next
  assume a: "isInteger days \<and> 1 \<le> intOf days \<and> intOf days \<le> 30 \<and>
    (\<forall>p\<in>set pre. validateOrder p = Inr ()) \<and> validateOrder ord = Inl e"
  then have "validateAll (pre @ ord # post) = Inl e"
    by (intro validateAll_first_violation) simp_all
  with a show "generateDoseEvents H L sd days (pre @ ord # post) = Inl e"
    by (simp add: generateDoseEvents_def)
  from a show "isValidationError e"
    by (intro validateOrder_error_kind [of ord]) simp
qed

theorem C5_fail_fast_witness:
  "generateDoseEvents sampleDigest noLegacy ''2026-01-15'' (Integer 31) [sampleOrder]
     = Inl DaysMustBe1to30 \<and>
   validateOrder sampleOrder = Inr () \<and>
   validateOrder (sampleOrder\<lparr>Order.priority := Integer 6\<rparr>) = Inl PriorityMustBe1to5 \<and>
   generateDoseEvents sampleDigest noLegacy ''2026-01-15'' (Integer 1)
     ([sampleOrder] @ sampleOrder\<lparr>Order.priority := Integer 6\<rparr> # [sampleOrder])
     = Inl PriorityMustBe1to5"
proof -
  have v: "validateOrder sampleOrder = Inr ()"
    by (simp add: validateOrder_def sampleOrder_def)
  have b: "validateOrder (sampleOrder\<lparr>Order.priority := Integer 6\<rparr>) = Inl PriorityMustBe1to5"
    by (simp add: validateOrder_def sampleOrder_def)
  have "generateDoseEvents sampleDigest noLegacy ''2026-01-15'' (Integer 31) [sampleOrder]
          = Inl DaysMustBe1to30"
    using C5_fail_fast [of "Integer 31" sampleDigest noLegacy "''2026-01-15''" "[sampleOrder]"]
    by simp
  moreover have "generateDoseEvents sampleDigest noLegacy ''2026-01-15'' (Integer 1)
     ([sampleOrder] @ sampleOrder\<lparr>Order.priority := Integer 6\<rparr> # [sampleOrder])
     = Inl PriorityMustBe1to5"
    using C5_fail_fast [of "Integer 1" sampleDigest noLegacy "''2026-01-15''" "[]"
        "[sampleOrder]" "sampleOrder\<lparr>Order.priority := Integer 6\<rparr>" PriorityMustBe1to5
        "[sampleOrder]"] v b
    by simp
  ultimately show ?thesis using v b by simp
qed

subsection \<open>Determinism\<close>




subsection \<open>Which timestamps parse\<close>

lemma allDigits_sub_nth:
  assumes "allDigits (sub s i n)" "k < n" "i + k < length s"
  shows "isDigit (s ! (i + k))"
proof -
  have "k < length (sub s i n)" using assms by (simp add: sub_def)
  moreover have "sub s i n ! k = s ! (i + k)" using assms by (simp add: sub_def)
  ultimately show ?thesis
    using assms(1) by (metis allDigits_def list_all_length)
qed

lemma isDigit_not_symbol:
  "isDigit c \<Longrightarrow> c \<noteq> CHR ''Z'' \<and> c \<noteq> CHR '':'' \<and> c \<noteq> CHR ''-'' \<and> c \<noteq> CHR ''+''"
  by (auto simp: isDigit_def)

lemma dateOnly_not_tz:
  assumes "dateOnlyForm s"
  shows "\<not> isIsoWithTz s"
proof -
  have len: "length s = 10" and d7: "s ! 7 = CHR ''-''" and dig: "allDigits (sub s 8 2)"
    using assms by (simp_all add: dateOnlyForm_def)
  have "isDigit (s ! (8 + 1))"
    using dig len by (intro allDigits_sub_nth [of s 8 2 1]) simp_all
  then have "s ! 9 \<noteq> CHR ''Z''" using isDigit_not_symbol by simp
  moreover have "last s = s ! 9"
  proof -
    have "s \<noteq> []" using len by auto
    then have "last s = s ! (length s - 1)" by (rule last_conv_nth)
    then show ?thesis by (simp add: len)
  qed
  moreover have "drop (length s - 6) s ! 3 = s ! 7" using len by simp
  ultimately show ?thesis
    using d7 by (auto simp: isIsoWithTz_def tzPattern_def)
qed

lemma dateOnly_not_naive: "dateOnlyForm s \<Longrightarrow> \<not> naiveForm s"
  by (simp add: dateOnlyForm_def naiveForm_def)

lemma parseIso_fails_iff:
  "(\<exists>e. parseIsoInFixedOffset L s off = Inl e) \<longleftrightarrow>
     (if isIsoWithTz s then Date_parse L s = None else \<not> naiveForm s)"
  by (auto simp: parseIsoInFixedOffset_def Let_def split: option.splits)

lemma parseIso_error_kind:
  "parseIsoInFixedOffset L s off = Inl e \<Longrightarrow> isMalformedTimestamp e"
  by (auto simp: parseIsoInFixedOffset_def Let_def split: option.splits if_splits)

text \<open>
  C2, as the code has it. Parsing a start or end timestamp fails, with a
  malformed-timestamp error, exactly in two cases: the string ends in \<^verbatim>\<open>Z\<close> or in an
  offset \<^verbatim>\<open>+HH:MM\<close> or \<^verbatim>\<open>-HH:MM\<close> and the runtime's \<^verbatim>\<open>Date.parse\<close> gives no finite
  instant for it, or it has no such ending and is not of the naive form
  \<^verbatim>\<open>YYYY-MM-DDTHH:MM[:SS]\<close>. Every string of the date-only form \<^verbatim>\<open>YYYY-MM-DD\<close> is of
  the second kind: parsing it fails.
\<close>

theorem C2_parse_failure:
  "((\<exists>e. parseIsoInFixedOffset L s off = Inl e) \<longleftrightarrow>
       (if isIsoWithTz s then Date_parse L s = None else \<not> naiveForm s)) \<and>
   (\<forall>e. parseIsoInFixedOffset L s off = Inl e \<longrightarrow> isMalformedTimestamp e) \<and>
   (dateOnlyForm s \<longrightarrow> parseIsoInFixedOffset L s off = Inl (InvalidNaiveIso s))"
proof (intro conjI allI impI)
  show "(\<exists>e. parseIsoInFixedOffset L s off = Inl e) \<longleftrightarrow>
       (if isIsoWithTz s then Date_parse L s = None else \<not> naiveForm s)"
    by (rule parseIso_fails_iff)
next
  fix e assume "parseIsoInFixedOffset L s off = Inl e"
  then show "isMalformedTimestamp e" by (rule parseIso_error_kind)
next
  assume "dateOnlyForm s"
  then show "parseIsoInFixedOffset L s off = Inl (InvalidNaiveIso s)"
    using dateOnly_not_tz dateOnly_not_naive by (simp add: parseIsoInFixedOffset_def)
qed

theorem C2_parse_failure_witness:
  "dateOnlyForm ''2026-02-01'' \<and>
   parseIsoInFixedOffset noLegacy ''2026-02-01'' 540 = Inl (InvalidNaiveIso ''2026-02-01'') \<and>
   isMalformedTimestamp (InvalidNaiveIso ''2026-02-01'')"
proof -
  have "dateOnlyForm ''2026-02-01''"
    by (simp add: dateOnlyForm_def read_defs)
  then show ?thesis
    using C2_parse_failure [of noLegacy "''2026-02-01''" 540] by simp
qed

text \<open>
  C2 as the specification words it says that a date-only string parses. It does not: the order
  timestamp \<^verbatim>\<open>2026-01-15\<close> raises the error of the naive form.
\<close>

theorem C2_date_only_counterexample:
  "dateOnlyForm ''2026-01-15'' \<and>
   parseIsoInFixedOffset noLegacy ''2026-01-15'' 0 = Inl (InvalidNaiveIso ''2026-01-15'')"
  by (simp add: dateOnlyForm_def parseIsoInFixedOffset_def isIsoWithTz_def tzPattern_def
      naiveForm_def read_defs)

subsection \<open>Sorting with a comparator\<close>





lemma length_insertBy: "length (insertBy cmp x xs) = Suc (length xs)"
  by (induction xs) auto

lemma length_sortBy: "length (sortBy cmp xs) = length xs"
  by (induction xs) (simp_all add: sortBy_def length_insertBy)





lemma cmpGroup_zero:
  "cmpGroup a b = 0 \<longleftrightarrow>
     ScheduledDose.priority a = ScheduledDose.priority b \<and> orderId a = orderId b \<and>
     utcMs a = utcMs b"
  by (auto simp: cmpGroup_def localeCompare_def)








subsection \<open>The scan of the minute buckets\<close>








subsection \<open>The greedy pass\<close>






subsection \<open>Grouping by key\<close>















subsection \<open>Separation of accepted doses\<close>


lemma near_iff: "near a b \<longleftrightarrow> \<bar>utcMs a - utcMs b\<bar> < OVERLAP_WINDOW_MS"
  by (simp add: near_def)








subsection \<open>Priority dominance\<close>





subsection \<open>Decimal rendering\<close>

lemma digit_cases: "n < 10 \<Longrightarrow> n \<in> {0, 1, 2, 3, 4, 5, 6, 7, 8, 9::nat}"
  by auto

lemma digitVal_digitChar: "n < 10 \<Longrightarrow> digitVal (digitChar n) = n"
  using digit_cases [of n] by (auto simp: digitVal_def digitChar_def)

lemma isDigit_digitChar: "n < 10 \<Longrightarrow> isDigit (digitChar n)"
  using digit_cases [of n] by (auto simp: isDigit_def digitChar_def)







subsection \<open>The occurrence generator\<close>
















subsection \<open>The output list\<close>





subsection \<open>The calendar\<close>

lemma mod_range:
  assumes "0 < (n::int)"
  shows "0 \<le> x mod n \<and> x mod n \<le> n - 1"
  using pos_mod_bound [OF assms, of x] pos_mod_sign [OF assms, of x] by linarith

lemma div_succ:
  assumes "0 < (n::int)"
  shows "(x + 1) div n = x div n + (if n dvd x + 1 then 1 else 0)"
proof -
  define q r where "q = x div n" and "r = x mod n"
  have x: "x = n * q + r" by (simp add: q_def r_def)
  have r: "0 \<le> r" "r \<le> n - 1" using mod_range [OF assms, of x] by (simp_all add: r_def)
  show ?thesis
  proof (cases "r = n - 1")
    case True
    then have e: "x + 1 = n * (q + 1)" using x by (simp add: algebra_simps)
    then have "n dvd x + 1" by simp
    moreover have "(x + 1) div n = q + 1"
      using assms by (simp only: e) simp
    ultimately show ?thesis by (simp add: q_def)
  next
    case False
    with r have lt: "0 \<le> r + 1" "r + 1 < n" by linarith+
    have e: "x + 1 = (r + 1) + n * q" using x by simp
    have "(x + 1) div n = q + (r + 1) div n"
      using assms by (simp only: e div_mult_self2) 
    then have d: "(x + 1) div n = q" using lt by simp
    have "(x + 1) mod n = (r + 1) mod n"
      by (simp only: e mod_mult_self2)
    then have "(x + 1) mod n = r + 1" using lt by simp
    then have "(x + 1) mod n \<noteq> 0" using r(1) by linarith
    then have "\<not> n dvd x + 1" by (simp add: dvd_eq_mod_eq_0)
    then show ?thesis using d by (simp add: q_def)
  qed
qed

lemma dvd_shift:
  "(4::int) dvd y - 1969 + 1 \<longleftrightarrow> 4 dvd y" "(100::int) dvd y - 1901 + 1 \<longleftrightarrow> 100 dvd y"
  "(400::int) dvd y - 1601 + 1 \<longleftrightarrow> 400 dvd y"
proof -
  have "y - 1969 + 1 = y - 4 * 492" "y - 1901 + 1 = y - 100 * 19" "y - 1601 + 1 = y - 400 * 4"
    by simp_all
  then show "(4::int) dvd y - 1969 + 1 \<longleftrightarrow> 4 dvd y" "(100::int) dvd y - 1901 + 1 \<longleftrightarrow> 100 dvd y"
    "(400::int) dvd y - 1601 + 1 \<longleftrightarrow> 400 dvd y"
    by (simp_all only: dvd_diff_left_iff dvd_triv_left)
qed

lemma DaysInYear_dvd:
  "DaysInYear y =
     365 + (if 4 dvd y then 1 else 0) - (if 100 dvd y then 1 else 0) + (if 400 dvd y then 1 else 0)"
proof -
  have "(4::int) dvd 100" "(100::int) dvd 400" by simp_all
  then have a: "100 dvd y \<Longrightarrow> 4 dvd y" and b: "400 dvd y \<Longrightarrow> 100 dvd y"
    using dvd_trans by blast+
  have d: "DaysInYear y =
     (if \<not> 4 dvd y then 365 else if \<not> 100 dvd y then 366
      else if \<not> 400 dvd y then 365 else 366)"
    unfolding DaysInYear_def by (simp only: mod_eq_0_iff_dvd)
  show ?thesis
  proof (cases "4 dvd y")
    case False
    then have "\<not> 100 dvd y" "\<not> 400 dvd y" using a b by blast+
    with False show ?thesis by (simp add: d)
  next
    case True
    show ?thesis
    proof (cases "100 dvd y")
      case False
      then have "\<not> 400 dvd y" using b by blast
      with True False show ?thesis by (simp add: d)
    next
      case h: True
      with True show ?thesis by (simp add: d)
    qed
  qed
qed

lemma DayFromYear_step: "DayFromYear (y + 1) = DayFromYear y + DaysInYear y"
proof -
  have "(y + 1 - 1969) div 4 = (y - 1969 + 1) div 4" "(y + 1 - 1901) div 100 = (y - 1901 + 1) div 100"
    "(y + 1 - 1601) div 400 = (y - 1601 + 1) div 400"
    by (simp_all add: algebra_simps)
  then show ?thesis
    unfolding DayFromYear_def DaysInYear_dvd
    by (simp only: div_succ dvd_shift) simp
qed

lemma DaysInYear_ge: "365 \<le> DaysInYear y"
  by (simp add: DaysInYear_def)

lemma DayFromYear_mono: "y \<le> z \<Longrightarrow> DayFromYear y \<le> DayFromYear z"
proof (induction z rule: int_ge_induct)
  case base
  then show ?case by simp
next
  case (step z)
  then show ?case
    using DayFromYear_step [of z] DaysInYear_ge [of z] by linarith
qed

lemma DayFromYear_bounds:
  "146097 * (y - 1970) - 506 \<le> 400 * DayFromYear y \<and>
   400 * DayFromYear y \<le> 146097 * (y - 1970) + 589"
proof -
  define A a B b C c where "A = (y - 1969) div 4" and "a = (y - 1969) mod 4"
    and "B = (y - 1901) div 100" and "b = (y - 1901) mod 100"
    and "C = (y - 1601) div 400" and "c = (y - 1601) mod 400"
  have e: "y - 1969 = 4 * A + a" "y - 1901 = 100 * B + b" "y - 1601 = 400 * C + c"
    by (simp_all add: A_def a_def B_def b_def C_def c_def)
  have "0 \<le> a \<and> a \<le> 4 - 1" "0 \<le> b \<and> b \<le> 100 - 1" "0 \<le> c \<and> c \<le> 400 - 1"
    unfolding a_def b_def c_def by (rule mod_range, simp)+
  then have r: "0 \<le> a" "a \<le> 3" "0 \<le> b" "b \<le> 99" "0 \<le> c" "c \<le> 399"
    by simp_all
  have f: "DayFromYear y = 365 * (y - 1970) + A - B + C"
    by (simp add: DayFromYear_def A_def B_def C_def)
  have "146097 * (y - 1970) - 506 \<le> 400 * DayFromYear y"
    using e r unfolding f by (simp add: algebra_simps)
  moreover have "400 * DayFromYear y \<le> 146097 * (y - 1970) + 589"
    using e r unfolding f by (simp add: algebra_simps)
  ultimately show ?thesis by simp
qed

text \<open>\<open>YearFromDay\<close> is the largest year that starts on or before the day.\<close>

lemma YearFromDay_spec:
  "DayFromYear (YearFromDay d) \<le> d \<and> d < DayFromYear (YearFromDay d + 1)"
proof -
  define y where "y = 1970 + (400 * d) div 146097"
  define k m where "k = (400 * d) div 146097" and "m = (400 * d) mod 146097"
  have "400 * d = 146097 * k + m" by (simp add: k_def m_def)
  moreover have "0 \<le> m \<and> m \<le> 146097 - 1"
    unfolding m_def by (rule mod_range) simp
  then have "0 \<le> m" "m \<le> 146096" by simp_all
  moreover have "y - 1970 = k" by (simp add: y_def k_def)
  ultimately have est: "146097 * (y - 1970) \<le> 400 * d" "400 * d < 146097 * (y - 1970) + 146097"
    by simp_all
  have "146097 * (y + 2 - 1970) - 506 \<le> 400 * DayFromYear (y + 2)"
    using DayFromYear_bounds [of "y + 2"] by simp
  then have up: "d < DayFromYear (y + 2)"
    using est by (simp add: algebra_simps)
  have "400 * DayFromYear (y - 1) \<le> 146097 * (y - 1 - 1970) + 589"
    using DayFromYear_bounds [of "y - 1"] by simp
  then have down: "DayFromYear (y - 1) \<le> d"
    using est by (simp add: algebra_simps)
  have "YearFromDay d =
      (if DayFromYear (y + 1) \<le> d then y + 1 else if DayFromYear y \<le> d then y else y - 1)"
    by (simp add: YearFromDay_def y_def Let_def)
  then show ?thesis
    using up down by (auto simp: algebra_simps)
qed

lemma YearFromDay_greatest:
  assumes "DayFromYear y \<le> d"
  shows "y \<le> YearFromDay d"
proof (rule ccontr)
  assume "\<not> y \<le> YearFromDay d"
  then have "YearFromDay d + 1 \<le> y" by simp
  then have "DayFromYear (YearFromDay d + 1) \<le> DayFromYear y" by (rule DayFromYear_mono)
  with assms YearFromDay_spec [of d] show False by linarith
qed

lemma DayWithinYear_bounds:
  "0 \<le> DayWithinYear t \<and> DayWithinYear t < 365 + InLeapYear t"
proof -
  have "DaysInYear (YearFromTime t) = 365 + InLeapYear t"
    by (simp add: InLeapYear_def DaysInYear_def)
  then show ?thesis
    using YearFromDay_spec [of "Day t"] DayFromYear_step [of "YearFromTime t"]
    by (simp add: DayWithinYear_def YearFromTime_def)
qed

lemma InLeapYear_cases: "InLeapYear t = 0 \<or> InLeapYear t = 1"
  by (simp add: InLeapYear_def)

lemma monthOfDay_bounds:
  assumes "leap = 0 \<or> leap = 1" "0 \<le> d" "d < 365 + leap"
  shows "0 \<le> monthOfDay leap d \<and> monthOfDay leap d \<le> 11 \<and>
         monthStart leap (monthOfDay leap d) \<le> d \<and>
         d < monthStart leap (monthOfDay leap d + 1)"
  using assms unfolding monthOfDay_def monthStart_def by auto

lemma monthStart_step:
  assumes "leap = 0 \<or> leap = 1" "0 \<le> m" "m \<le> 11"
  shows "monthStart leap (m + 1) - monthStart leap m \<le> 31"
  using assms unfolding monthStart_def by auto

text \<open>The calendar fields of a time value, and the day they make.\<close>

lemma calendar_fields:
  "0 \<le> MonthFromTime t \<and> MonthFromTime t \<le> 11 \<and> 1 \<le> DateFromTime t \<and>
   DateFromTime t \<le> daysInMonth (YearFromTime t) (MonthFromTime t + 1) \<and>
   DateFromTime t \<le> 31"
proof -
  let ?l = "InLeapYear t"
  have b: "0 \<le> monthOfDay ?l (DayWithinYear t) \<and> monthOfDay ?l (DayWithinYear t) \<le> 11 \<and>
         monthStart ?l (monthOfDay ?l (DayWithinYear t)) \<le> DayWithinYear t \<and>
         DayWithinYear t < monthStart ?l (monthOfDay ?l (DayWithinYear t) + 1)"
    using InLeapYear_cases DayWithinYear_bounds by (intro monthOfDay_bounds) simp_all
  have s: "monthStart ?l (MonthFromTime t + 1) - monthStart ?l (MonthFromTime t) \<le> 31"
    using InLeapYear_cases b by (intro monthStart_step) (simp_all add: MonthFromTime_def)
  have "daysInMonth (YearFromTime t) (MonthFromTime t + 1) =
      monthStart ?l (MonthFromTime t + 1) - monthStart ?l (MonthFromTime t)"
    by (simp add: daysInMonth_def InLeapYear_def)
  then show ?thesis
    using b s by (simp add: MonthFromTime_def DateFromTime_def)
qed

lemma MakeDay_fields:
  "MakeDay (YearFromTime t) (MonthFromTime t + 1 - 1) (DateFromTime t) = Day t"
proof -
  have "0 \<le> MonthFromTime t" "MonthFromTime t \<le> 11" using calendar_fields by simp_all
  then have "MonthFromTime t div 12 = 0" "MonthFromTime t mod 12 = MonthFromTime t"
    by simp_all
  then show ?thesis
    by (simp add: MakeDay_def DateFromTime_def DayWithinYear_def InLeapYear_def)
qed

lemma time_fields:
  "0 \<le> HourFromTime t \<and> HourFromTime t \<le> 23 \<and> 0 \<le> MinFromTime t \<and> MinFromTime t \<le> 59 \<and>
   0 \<le> SecFromTime t \<and> SecFromTime t \<le> 59"
  unfolding HourFromTime_def MinFromTime_def SecFromTime_def
  using mod_range [of 24 "t div 3600000"] mod_range [of 60 "t div 60000"]
    mod_range [of 60 "t div 1000"]
  by simp

lemma seconds_of_day:
  "(q div 3600 mod 24) * 3600 + (q div 60 mod 60) * 60 + q mod 60 = q mod (86400::int)"
proof -
  define a where "a = q div 60"
  define b where "b = a div 60"
  have b': "q div 3600 = b" by (simp add: a_def b_def zdiv_zmult2_eq [symmetric])
  have "q = 60 * a + q mod 60" by (simp add: a_def)
  moreover have "a = 60 * b + a mod 60" by (simp add: b_def)
  moreover have "b = 24 * (b div 24) + b mod 24" by simp
  ultimately have q: "q = 86400 * (b div 24) + (b mod 24 * 3600 + a mod 60 * 60 + q mod 60)"
    by linarith
  have r: "0 \<le> b mod 24 * 3600 + a mod 60 * 60 + q mod 60"
    "b mod 24 * 3600 + a mod 60 * 60 + q mod 60 < 86400"
    using pos_mod_bound [of 24 b] pos_mod_bound [of 60 a] pos_mod_bound [of 60 q]
      pos_mod_sign [of 24 b] pos_mod_sign [of 60 a] pos_mod_sign [of 60 q]
    by linarith+
  have "q mod 86400 = (b mod 24 * 3600 + a mod 60 * 60 + q mod 60) mod 86400"
    by (subst q) simp
  also have "\<dots> = b mod 24 * 3600 + a mod 60 * 60 + q mod 60"
    using r by simp
  finally show ?thesis by (simp add: b' a_def)
qed

lemma MakeTime_fields:
  assumes "t mod 1000 = 0"
  shows "MakeDate (Day t) (MakeTime (HourFromTime t) (MinFromTime t) (SecFromTime t) 0) = t"
proof -
  define q where "q = t div 1000"
  have "t = 1000 * (t div 1000) + t mod 1000" by simp
  then have t: "t = 1000 * q" using assms by (simp add: q_def)
  have d: "t div 3600000 = q div 3600" "t div 60000 = q div 60" "t div 1000 = q"
    by (simp_all add: t)
  have "1000 * (q mod 86400) = (1000 * q) mod (1000 * 86400)"
    by (rule mult_mod_right)
  then have m: "t mod 86400000 = 1000 * (q mod 86400)"
    by (simp add: t)
  have "MakeTime (HourFromTime t) (MinFromTime t) (SecFromTime t) 0 =
      1000 * ((q div 3600 mod 24) * 3600 + (q div 60 mod 60) * 60 + q mod 60)"
    by (simp add: MakeTime_def HourFromTime_def MinFromTime_def SecFromTime_def d)
  also have "\<dots> = t mod 86400000"
    by (simp only: seconds_of_day m)
  finally show ?thesis
    by (simp add: MakeDate_def Day_def msPerDay_def)
qed

lemma year_range_time:
  assumes "1000 \<le> YearFromTime t" "YearFromTime t \<le> 9999"
  shows "- 400000 * msPerDay \<le> t \<and> t < 3000000 * msPerDay"
proof -
  have "DayFromYear 1000 \<le> DayFromYear (YearFromTime t)"
    "DayFromYear (YearFromTime t + 1) \<le> DayFromYear 10000"
    using assms by (simp_all add: DayFromYear_mono)
  then have "DayFromYear 1000 \<le> Day t" "Day t < DayFromYear 10000"
    using YearFromDay_spec [of "Day t"] by (simp_all add: YearFromTime_def)
  then have "- 400000 \<le> t div msPerDay" "t div msPerDay < 3000000"
    by (simp_all add: DayFromYear_def Day_def)
  then show ?thesis
    by (simp add: msPerDay_def) linarith
qed

subsection \<open>Reading back a rendered timestamp\<close>

lemma digitChar_not_symbol:
  "n < 10 \<Longrightarrow> digitChar n \<noteq> CHR ''Z'' \<and> digitChar n \<noteq> CHR '':'' \<and>
     digitChar n \<noteq> CHR ''-'' \<and> digitChar n \<noteq> CHR ''+''"
  using digit_cases [of n] by (auto simp: digitChar_def)

lemma readNat_digits2:
  "a < 10 \<Longrightarrow> b < 10 \<Longrightarrow> readNat [digitChar a, digitChar b] = 10 * a + b"
  by (simp add: readNat_def digitVal_digitChar)

lemma readNat_digits4:
  "a < 10 \<Longrightarrow> b < 10 \<Longrightarrow> c < 10 \<Longrightarrow> d < 10 \<Longrightarrow>
     readNat [digitChar a, digitChar b, digitChar c, digitChar d] =
       1000 * a + 100 * b + 10 * c + d"
  by (simp add: readNat_def digitVal_digitChar)

text \<open>
  A string of the shape that \<open>toIsoInFixedOffset\<close> writes, given by its digits: it ends
  in an offset, and \<^verbatim>\<open>Date.parse\<close> reads its fields back.
\<close>

lemma rendered_shape:
  assumes d: "y1 < 10" "y2 < 10" "y3 < 10" "y4 < 10" "m1 < 10" "m2 < 10" "d1 < 10" "d2 < 10"
      "h1 < 10" "h2 < 10" "i1 < 10" "i2 < 10" "s1 < 10" "s2 < 10"
      "o1 < 10" "o2 < 10" "p1 < 10" "p2 < 10"
    and sg: "sg = CHR ''+'' \<or> sg = CHR ''-''"
  defines "body \<equiv> [digitChar y1, digitChar y2, digitChar y3, digitChar y4, CHR ''-'',
      digitChar m1, digitChar m2, CHR ''-'', digitChar d1, digitChar d2, CHR ''T'',
      digitChar h1, digitChar h2, CHR '':'', digitChar i1, digitChar i2, CHR '':'',
      digitChar s1, digitChar s2]"
  defines "tz \<equiv> [sg, digitChar o1, digitChar o2, CHR '':'', digitChar p1, digitChar p2]"
  shows "isIsoWithTz (body @ tz)"
    and "tzOf (body @ tz) =
           Some (body, if sg = CHR ''-'' then - 1 else 1, int (10 * o1 + o2), int (10 * p1 + p2))"
    and "isoBody body"
    and "field body 0 4 = int (1000 * y1 + 100 * y2 + 10 * y3 + y4)"
    and "field body 5 2 = int (10 * m1 + m2)"
    and "field body 8 2 = int (10 * d1 + d2)"
    and "field body 11 2 = int (10 * h1 + h2)"
    and "field body 14 2 = int (10 * i1 + i2)"
    and "field body 17 2 = int (10 * s1 + s2)"
    and "length body = 19"
proof -
  have tzp: "tzPattern tz"
    using d sg by (simp add: tzPattern_def tz_def isDigit_digitChar)
  have len: "length tz = 6" "length body = 19" by (simp_all add: tz_def body_def)
  have dr: "drop (length (body @ tz) - 6) (body @ tz) = tz"
    "take (length (body @ tz) - 6) (body @ tz) = body"
    by (simp_all add: len)
  show "isIsoWithTz (body @ tz)"
    using tzp by (simp add: isIsoWithTz_def dr len)
  have "last (body @ tz) = digitChar p2" by (simp add: tz_def)
  then have nz: "last (body @ tz) \<noteq> CHR ''Z''" using d digitChar_not_symbol by simp
  have f: "field tz 1 2 = int (10 * o1 + o2)" "field tz 4 2 = int (10 * p1 + p2)"
    using d by (simp_all add: field_def sub_def tz_def readNat_digits2)
  have s0: "tz ! 0 = sg" by (simp add: tz_def)
  show "tzOf (body @ tz) =
           Some (body, if sg = CHR ''-'' then - 1 else 1, int (10 * o1 + o2), int (10 * p1 + p2))"
    unfolding tzOf_def using nz tzp
    by (simp only: dr len Let_def f s0) (simp add: len)
  show "isoBody body"
    using d by (simp add: isoBody_def naiveForm_def body_def sub_def allDigits_def isDigit_digitChar)
  show "field body 0 4 = int (1000 * y1 + 100 * y2 + 10 * y3 + y4)"
    using d by (simp add: field_def sub_def body_def readNat_digits4)
  show "field body 5 2 = int (10 * m1 + m2)" "field body 8 2 = int (10 * d1 + d2)"
    "field body 11 2 = int (10 * h1 + h2)" "field body 14 2 = int (10 * i1 + i2)"
    "field body 17 2 = int (10 * s1 + s2)"
    using d by (simp_all add: field_def sub_def body_def readNat_digits2)
  show "length body = 19" by (rule len)
qed

lemma pad2_twoDigits:
  assumes "0 \<le> n" "n < 100"
  shows "pad2 n = twoDigits (nat n)"
proof -
  define m where "m = nat n"
  have m: "m < 100" using assms by (simp add: m_def)
  have z: "digitChar 0 = CHR ''0''" by (simp add: digitChar_def)
  have "padStart 2 CHR ''0'' (showNat m) = twoDigits m"
  proof (cases "m < 10")
    case True
    then have "showNat m = [digitChar m]" by (subst showNat.simps) simp
    then show ?thesis using True by (simp add: padStart_def twoDigits_def z)
  next
    case False
    then have "m div 10 < 10" using m by simp
    then have "showNat (m div 10) = [digitChar (m div 10)]" by (subst showNat.simps) simp
    then have "showNat m = [digitChar (m div 10), digitChar (m mod 10)]"
      using False by (subst showNat.simps) simp
    then show ?thesis by (simp add: padStart_def twoDigits_def)
  qed
  then show ?thesis using assms by (simp add: pad2_def showInt_def m_def)
qed

lemma showInt_fourDigits:
  assumes "1000 \<le> y" "y \<le> 9999"
  shows "showInt y = fourDigits (nat y)"
proof -
  define m where "m = nat y"
  have m: "1000 \<le> m" "m < 10000" using assms by (simp_all add: m_def)
  have dd: "m div 10 div 10 = m div 100" "m div 100 div 10 = m div 1000"
    by (simp_all add: div_mult2_eq)
  have r: "\<not> m < 10" "\<not> m div 10 < 10" "\<not> m div 100 < 10" "m div 1000 < 10"
    using m by simp_all
  have "showNat (m div 1000) = [digitChar (m div 1000)]"
    using r(4) by (subst showNat.simps) simp
  then have "showNat (m div 100) = [digitChar (m div 1000), digitChar (m div 100 mod 10)]"
    using r(3) by (subst showNat.simps) (simp add: dd)
  then have "showNat (m div 10) =
      [digitChar (m div 1000), digitChar (m div 100 mod 10), digitChar (m div 10 mod 10)]"
    using r(2) by (subst showNat.simps) (simp add: dd)
  then have "showNat m = fourDigits m"
    using r(1) by (subst showNat.simps) (simp add: fourDigits_def)
  then show ?thesis using assms by (simp add: showInt_def m_def)
qed

lemma four_value:
  "1000 * (n div 1000) + 100 * (n div 100 mod 10) + 10 * (n div 10 mod 10) + n mod 10 = (n::nat)"
proof -
  have "n div 10 div 10 = n div 100" "n div 100 div 10 = n div 1000"
    by (simp_all add: div_mult2_eq)
  then have "n div 10 = 10 * (n div 100) + n div 10 mod 10"
    "n div 100 = 10 * (n div 1000) + n div 100 mod 10"
    by (metis mult_div_mod_eq)+
  moreover have "n = 10 * (n div 10) + n mod 10" by simp
  ultimately show ?thesis by linarith
qed

lemma rendered_fields:
  assumes "Y < 10000" "MO < 100" "D < 100" "H < 100" "MI < 100" "S < 100" "TH < 100" "TM < 100"
    and sg: "sg = CHR ''+'' \<or> sg = CHR ''-''"
  defines "body \<equiv> fourDigits Y @ ''-'' @ twoDigits MO @ ''-'' @ twoDigits D @ ''T'' @
      twoDigits H @ '':'' @ twoDigits MI @ '':'' @ twoDigits S"
  defines "tz \<equiv> [sg] @ twoDigits TH @ '':'' @ twoDigits TM"
  shows "isIsoWithTz (body @ tz)"
    and "tzOf (body @ tz) = Some (body, if sg = CHR ''-'' then - 1 else 1, int TH, int TM)"
    and "isoBody body"
    and "field body 0 4 = int Y" and "field body 5 2 = int MO" and "field body 8 2 = int D"
    and "field body 11 2 = int H" and "field body 14 2 = int MI" and "field body 17 2 = int S"
    and "length body = 19"
proof -
  have b: "body = [digitChar (Y div 1000), digitChar (Y div 100 mod 10),
      digitChar (Y div 10 mod 10), digitChar (Y mod 10), CHR ''-'',
      digitChar (MO div 10), digitChar (MO mod 10), CHR ''-'',
      digitChar (D div 10), digitChar (D mod 10), CHR ''T'',
      digitChar (H div 10), digitChar (H mod 10), CHR '':'',
      digitChar (MI div 10), digitChar (MI mod 10), CHR '':'',
      digitChar (S div 10), digitChar (S mod 10)]"
    by (simp add: body_def fourDigits_def twoDigits_def)
  have t: "tz = [sg, digitChar (TH div 10), digitChar (TH mod 10), CHR '':'',
      digitChar (TM div 10), digitChar (TM mod 10)]"
    by (simp add: tz_def twoDigits_def)
  have dg: "Y div 1000 < 10" "Y div 100 mod 10 < 10" "Y div 10 mod 10 < 10" "Y mod 10 < 10"
    "MO div 10 < 10" "MO mod 10 < 10" "D div 10 < 10" "D mod 10 < 10"
    "H div 10 < 10" "H mod 10 < 10" "MI div 10 < 10" "MI mod 10 < 10"
    "S div 10 < 10" "S mod 10 < 10" "TH div 10 < 10" "TH mod 10 < 10"
    "TM div 10 < 10" "TM mod 10 < 10"
    using assms(1-8) by simp_all
  note sh = rendered_shape [OF dg sg, folded b t]
  show "isIsoWithTz (body @ tz)" by (rule sh(1))
  show "tzOf (body @ tz) = Some (body, if sg = CHR ''-'' then - 1 else 1, int TH, int TM)"
    using sh(2) by simp
  show "isoBody body" by (rule sh(3))
  show "field body 0 4 = int Y" using sh(4) by (simp only: four_value)
  show "field body 5 2 = int MO" "field body 8 2 = int D" "field body 11 2 = int H"
    "field body 14 2 = int MI" "field body 17 2 = int S"
    using sh(5-9) by simp_all
  show "length body = 19" by (rule sh(10))
qed

lemma formatOffset_fields:
  assumes "\<bar>off\<bar> < 1440"
  shows "formatOffset off =
           [if 0 \<le> off then CHR ''+'' else CHR ''-''] @ twoDigits (nat (\<bar>off\<bar> div 60)) @ '':'' @
           twoDigits (nat (\<bar>off\<bar> mod 60))"
    and "nat (\<bar>off\<bar> div 60) \<le> 23" and "nat (\<bar>off\<bar> mod 60) \<le> 59"
    and "(if 0 \<le> off then 1 else - 1) *
           (int (nat (\<bar>off\<bar> div 60)) * 60 + int (nat (\<bar>off\<bar> mod 60))) = off"
proof -
  define a where "a = \<bar>off\<bar>"
  have a: "0 \<le> a" "a < 1440" using assms by (simp_all add: a_def)
  define q r where "q = a div 60" and "r = a mod 60"
  have e: "a = 60 * q + r" by (simp add: q_def r_def)
  have "0 \<le> r \<and> r \<le> 60 - 1" unfolding r_def by (rule mod_range) simp
  then have r: "0 \<le> r" "r \<le> 59" by simp_all
  have q: "0 \<le> q" "q \<le> 23" using e r a by linarith+
  have m': "0 \<le> a mod 60" "a mod 60 \<le> 59" using r by (simp_all add: r_def)
  have h: "0 \<le> a div 60" "a div 60 \<le> 23" using q by (simp_all add: q_def)
  show "formatOffset off =
           [if 0 \<le> off then CHR ''+'' else CHR ''-''] @ twoDigits (nat (\<bar>off\<bar> div 60)) @ '':'' @
           twoDigits (nat (\<bar>off\<bar> mod 60))"
    using h m' by (simp add: formatOffset_def Let_def pad2_twoDigits a_def [symmetric])
  show "nat (\<bar>off\<bar> div 60) \<le> 23" "nat (\<bar>off\<bar> mod 60) \<le> 59"
    using h m' by (simp_all add: a_def [symmetric])
  have "int (nat (a div 60)) * 60 + int (nat (a mod 60)) = a"
    using h m' by simp
  then show "(if 0 \<le> off then 1 else - 1) *
           (int (nat (\<bar>off\<bar> div 60)) * 60 + int (nat (\<bar>off\<bar> mod 60))) = off"
    by (simp add: a_def)
qed

lemma TimeClip_in_range: "\<bar>t\<bar> \<le> 8640000000000000 \<Longrightarrow> TimeClip t = Num t"
  by (simp add: TimeClip_def)

text \<open>
  C10, as the runtime has it. For an offset of less than 24 hours, an instant that is a
  whole number of seconds and a local calendar year of four digits, the rendered string
  parses back to the instant, whatever offset is declared: the string carries its own.
\<close>

theorem C10_roundtrip:
  assumes off: "\<bar>off\<bar> < 1440" and sec: "t mod 1000 = 0"
    and yr: "1000 \<le> YearFromTime (t + off * MS_PER_MIN)"
      "YearFromTime (t + off * MS_PER_MIN) \<le> 9999"
  shows "parseIsoInFixedOffset L (toIsoInFixedOffset t off) off' = Inr (Num t)"
proof -
  define dt where "dt = t + off * MS_PER_MIN"
  define sg where "sg = (if 0 \<le> off then CHR ''+'' else CHR ''-'')"
  define Y MO D H MI S TH TM where "Y = nat (YearFromTime dt)"
    and "MO = nat (MonthFromTime dt + 1)" and "D = nat (DateFromTime dt)"
    and "H = nat (HourFromTime dt)" and "MI = nat (MinFromTime dt)"
    and "S = nat (SecFromTime dt)" and "TH = nat (\<bar>off\<bar> div 60)"
    and "TM = nat (\<bar>off\<bar> mod 60)"
  define body where "body = fourDigits Y @ ''-'' @ twoDigits MO @ ''-'' @ twoDigits D @ ''T'' @
      twoDigits H @ '':'' @ twoDigits MI @ '':'' @ twoDigits S"
  define tz where "tz = [sg] @ twoDigits TH @ '':'' @ twoDigits TM"
  have yr': "1000 \<le> YearFromTime dt" "YearFromTime dt \<le> 9999"
    using yr by (simp_all add: dt_def)
  have cal: "0 \<le> MonthFromTime dt" "MonthFromTime dt \<le> 11" "1 \<le> DateFromTime dt"
    "DateFromTime dt \<le> daysInMonth (YearFromTime dt) (MonthFromTime dt + 1)"
    "DateFromTime dt \<le> 31"
    using calendar_fields [of dt] by simp_all
  have tm: "0 \<le> HourFromTime dt" "HourFromTime dt \<le> 23" "0 \<le> MinFromTime dt"
    "MinFromTime dt \<le> 59" "0 \<le> SecFromTime dt" "SecFromTime dt \<le> 59"
    using time_fields [of dt] by simp_all
  have fo: "formatOffset off = tz" "TH \<le> 23" "TM \<le> 59"
    "(if 0 \<le> off then 1 else - 1) * (int TH * 60 + int TM) = off"
    using formatOffset_fields [OF off] by (simp_all add: tz_def sg_def TH_def TM_def)
  have rng: "- 400000 * msPerDay \<le> dt" "dt < 3000000 * msPerDay"
    using year_range_time [OF yr'] by simp_all
  then have clip: "TimeClip dt = Num dt"
    by (intro TimeClip_in_range) (simp add: msPerDay_def)
  have "\<bar>t\<bar> \<le> 8640000000000000"
    using rng off by (simp add: dt_def msPerDay_def MS_PER_MIN_def)
  then have clip': "TimeClip t = Num t" by (rule TimeClip_in_range)
  have vals: "int Y = YearFromTime dt" "int MO = MonthFromTime dt + 1" "int D = DateFromTime dt"
    "int H = HourFromTime dt" "int MI = MinFromTime dt" "int S = SecFromTime dt"
    using yr' cal tm by (simp_all add: Y_def MO_def D_def H_def MI_def S_def)
  have render: "toIsoInFixedOffset t off = body @ tz"
    using yr' cal tm
    by (simp add: toIsoInFixedOffset_def dt_def [symmetric] clip Let_def showInt_fourDigits
        pad2_twoDigits fo(1) body_def Y_def MO_def D_def H_def MI_def S_def)
  have small: "Y < 10000" "MO < 100" "D < 100" "H < 100" "MI < 100" "S < 100" "TH < 100"
    "TM < 100"
    using yr' cal tm fo(2,3) by (simp_all add: Y_def MO_def D_def H_def MI_def S_def)
  have sgc: "sg = CHR ''+'' \<or> sg = CHR ''-''" by (simp add: sg_def)
  note rf = rendered_fields [OF small sgc, folded body_def tz_def]
  have sgn: "(if sg = CHR ''-'' then - 1 else 1) = (if 0 \<le> off then 1 else - 1 :: int)"
    by (simp add: sg_def)
  have inb: "\<not> (int MO < 1 \<or> 12 < int MO \<or> int D < 1 \<or> 31 < int D \<or> 24 < int H \<or>
      59 < int MI \<or> 59 < int S \<or> 24 < int TH \<or> 59 < int TM)"
    using cal tm fo(2,3) unfolding vals by simp
  have val: "\<not> (daysInMonth (int Y) (int MO) < int D \<or> int H = 24 \<or> int TH = 24)"
    using cal tm fo(2) unfolding vals by simp
  have day: "MakeDay (int Y) (int MO - 1) (int D) = Day dt"
    unfolding vals by (rule MakeDay_fields)
  have "dt = t + 1000 * (off * 60)" by (simp add: dt_def MS_PER_MIN_def)
  then have "dt mod 1000 = t mod 1000" by (simp only: mod_mult_self2)
  then have "dt mod 1000 = 0" using sec by simp
  then have whole: "MakeDate (Day dt) (MakeTime (int H) (int MI) (int S) 0) = dt"
    unfolding vals by (rule MakeTime_fields)
  have undo: "dt - (if 0 \<le> off then 1 else - 1) * (int TH * 60 + int TM) * 60000 = t"
    unfolding fo(4) by (simp add: dt_def MS_PER_MIN_def)
  have expr: "MakeDate (MakeDay (int Y) (int MO - 1) (int D)) (MakeTime (int H) (int MI) (int S) 0)
      - (if sg = CHR ''-'' then - 1 else 1) * (int TH * 60 + int TM) * 60000 = t"
    by (simp only: day whole sgn undo)
  have c19: "((19::nat) \<le> 19) = True" "((19::nat) = 23) = False"
    by simp_all
  have "Date_parse L (body @ tz) = Some t"
    unfolding Date_parse_def rf(2)
    by (simp only: rf(3-10) c19 prod.case option.case if_True if_False Let_def inb val expr
        clip' jsnum.case)
  then show ?thesis
    using rf(1) by (simp add: parseIsoInFixedOffset_def render)
qed

theorem C10_roundtrip_witness:
  "\<bar>- 570\<bar> < (1440::int) \<and> (123456789000::int) mod 1000 = 0 \<and>
   YearFromTime (123456789000 + (- 570) * MS_PER_MIN) = 1973 \<and>
   parseIsoInFixedOffset noLegacy (toIsoInFixedOffset 123456789000 (- 570)) 0 =
     Inr (Num 123456789000)"
proof -
  have y: "YearFromTime (123456789000 + (- 570) * MS_PER_MIN) = 1973"
    by (simp add: MS_PER_MIN_def YearFromTime_def YearFromDay_def Day_def msPerDay_def
        DayFromYear_def)
  show ?thesis
    using C10_roundtrip [of "- 570" 123456789000 noLegacy 0] y by simp
qed

text \<open>
  C10 as first worded admits every offset below 6000 minutes. An offset of 25 hours is
  rendered as \<^verbatim>\<open>+25:00\<close>, an hour out of bounds: \<^verbatim>\<open>Date.parse\<close> gives \<^verbatim>\<open>NaN\<close> and the
  parse raises.
\<close>

theorem C10_offset_counterexample:
  "\<bar>1500\<bar> < (6000::int) \<and> (0::int) mod 1000 = 0 \<and>
   YearFromTime (0 + 1500 * MS_PER_MIN) = 1970 \<and>
   toIsoInFixedOffset 0 1500 = ''1970-01-02T01:00:00+25:00'' \<and>
   parseIsoInFixedOffset noLegacy (toIsoInFixedOffset 0 1500) 1500 =
     Inl (InvalidIso ''1970-01-02T01:00:00+25:00'')"
proof -
  have r: "toIsoInFixedOffset 0 1500 = ''1970-01-02T01:00:00+25:00''"
    by (simp add: render_defs date_defs)
  have y: "YearFromTime (0 + 1500 * MS_PER_MIN) = 1970"
    by (simp add: MS_PER_MIN_def YearFromTime_def YearFromDay_def Day_def msPerDay_def
        DayFromYear_def)
  have tz: "tzOf ''1970-01-02T01:00:00+25:00'' = Some (''1970-01-02T01:00:00'', 1, 25, 0)"
    by (simp add: tzOf_def tzPattern_def read_defs)
  have iso: "isIsoWithTz ''1970-01-02T01:00:00+25:00''"
    by (simp add: isIsoWithTz_def tzPattern_def isDigit_def)
  have body: "isoBody ''1970-01-02T01:00:00''"
    by (simp add: isoBody_def naiveForm_def read_defs)
  have "Date_parse noLegacy ''1970-01-02T01:00:00+25:00'' = None"
    unfolding Date_parse_def tz
    by (simp only: option.case prod.case body if_True Let_def) simp
  then have "parseIsoInFixedOffset noLegacy ''1970-01-02T01:00:00+25:00'' 1500 =
     Inl (InvalidIso ''1970-01-02T01:00:00+25:00'')"
    by (simp add: parseIsoInFixedOffset_def iso)
  then show ?thesis using r y by simp
qed

end
